theory Spec2Isabelle
  imports Main "HOL-Library.Sublist"
begin

section \<open>Values, configuration and requests\<close>

text \<open>
  The service of \<^verbatim>\<open>index-docker-optimized.js\<close>: an HTTP handler pushes scrape jobs on a
  process-wide queue, one drain loop (\<^verbatim>\<open>processQueue\<close>) takes them off one at a time, and
  for each job \<^verbatim>\<open>scrapeLinkedInProfile\<close> drives a headless browser.

  The values of JavaScript that a JSON body can carry, and \<^verbatim>\<open>undefined\<close> for a field that
  is absent. Objects are association lists in insertion order. Numbers are the integers:
  the code computes with none of them. \<open>JTime t\<close> stands for the string
  \<^verbatim>\<open>new Date(t).toISOString()\<close>; the service writes it, no request body carries it.
\<close>

datatype jsval =
    JUndefined
  | JNull
  | JBool bool
  | JNum int
  | JStr string
  | JTime int
  | JArr "jsval list"
  | JObj "(string \<times> jsval) list"

type_synonym obj = "(string \<times> jsval) list"

text \<open>Truthiness: what \<^verbatim>\<open>!v\<close>, \<^verbatim>\<open>v || d\<close> and \<^verbatim>\<open>if (v)\<close> look at.\<close>

fun truthy :: "jsval \<Rightarrow> bool" where
  "truthy JUndefined = False"
| "truthy JNull = False"
| "truthy (JBool b) = b"
| "truthy (JNum n) = (n \<noteq> 0)"
| "truthy (JStr s) = (s \<noteq> [])"
| "truthy (JTime t) = True"
| "truthy (JArr xs) = True"
| "truthy (JObj kvs) = True"

text \<open>\<^verbatim>\<open>v || d\<close>.\<close>

definition js_or :: "jsval \<Rightarrow> jsval \<Rightarrow> jsval" where
  "js_or v d = (if truthy v then v else d)"

text \<open>\<^verbatim>\<open>o[k] = v\<close>: an existing key keeps its place, a new key goes last.\<close>

fun set_field :: "string \<Rightarrow> jsval \<Rightarrow> obj \<Rightarrow> obj" where
  "set_field k v [] = [(k, v)]"
| "set_field k v ((k', v') # rest) =
     (if k' = k then (k, v) # rest else (k', v') # set_field k v rest)"

text \<open>\<^verbatim>\<open>String.prototype.includes\<close>: the argument occurs as a contiguous substring.\<close>

fun str_includes :: "string \<Rightarrow> string \<Rightarrow> bool" where
  "str_includes [] sub = (sub = [])"
| "str_includes (c # cs) sub = (prefix sub (c # cs) \<or> str_includes cs sub)"

text \<open>
  The value of \<^verbatim>\<open>v.includes('linkedin.com/in/')\<close>, or \<open>None\<close> when evaluating it throws a
  \<^verbatim>\<open>TypeError\<close>. A string has \<^verbatim>\<open>String.prototype.includes\<close> (substring); an array has
  \<^verbatim>\<open>Array.prototype.includes\<close> (an element equal to the argument); a number, a boolean
  and an object made from JSON have no function under that name. The ISO rendering of a
  date holds digits, \<^verbatim>\<open>-\<close>, \<^verbatim>\<open>:\<close>, \<^verbatim>\<open>.\<close>, \<^verbatim>\<open>T\<close> and \<^verbatim>\<open>Z\<close> only.
\<close>

fun includes_pattern :: "jsval \<Rightarrow> bool option" where
  "includes_pattern (JStr s) = Some (str_includes s ''linkedin.com/in/'')"
| "includes_pattern (JArr xs) = Some (JStr ''linkedin.com/in/'' \<in> set xs)"
| "includes_pattern (JTime t) = Some False"
| "includes_pattern JUndefined = None"
| "includes_pattern JNull = None"
| "includes_pattern (JBool b) = None"
| "includes_pattern (JNum n) = None"
| "includes_pattern (JObj kvs) = None"

text \<open>
  The environment of the process. \<open>SCRAPER_RATE_LIMIT_DELAY\<close> holds what \<^verbatim>\<open>parseInt\<close> makes
  of the variable: \<open>None\<close> is \<^verbatim>\<open>NaN\<close> (unset or not a number).
\<close>

record config =
  SCRAPER_RATE_LIMIT_DELAY :: "int option"
  PROXY_ENDPOINT :: "string option"
  PROXY_USERNAME :: "string option"
  PROXY_PASSWORD :: "string option"

text \<open>\<^verbatim>\<open>parseInt(process.env.SCRAPER_RATE_LIMIT_DELAY) || 3000\<close>: \<^verbatim>\<open>NaN\<close> and 0 are falsy.\<close>

definition RATE_LIMIT_DELAY :: "config \<Rightarrow> int" where
  "RATE_LIMIT_DELAY cfg =
     (case SCRAPER_RATE_LIMIT_DELAY cfg of
        None \<Rightarrow> 3000
      | Some n \<Rightarrow> if n = 0 then 3000 else n)"

text \<open>Truthiness of an environment string: set and not empty.\<close>

fun truthy_str :: "string option \<Rightarrow> bool" where
  "truthy_str None = False"
| "truthy_str (Some s) = (s \<noteq> [])"

text \<open>\<^verbatim>\<open>PROXY_CONFIG.enabled = !!(PROXY_ENDPOINT && PROXY_USERNAME)\<close>.\<close>

definition proxy_enabled :: "config \<Rightarrow> bool" where
  "proxy_enabled cfg = (truthy_str (PROXY_ENDPOINT cfg) \<and> truthy_str (PROXY_USERNAME cfg))"

text \<open>
  The five fields the handler destructures from the body of \<^verbatim>\<open>POST /scrape\<close>, each any
  JSON value, or \<open>JUndefined\<close> when the body has no such field.
\<close>

record body =
  body_url :: jsval
  body_extract_sections :: jsval
  body_use_proxy :: jsval
  body_wait_time :: jsval
  body_retry_attempts :: jsval

text \<open>The \<^verbatim>\<open>request\<close> object the handler builds and the orchestrator reads.\<close>

record request =
  url :: jsval
  extract_sections :: jsval
  use_proxy :: jsval
  wait_time :: jsval
  retry_attempts :: jsval

text \<open>A thrown \<^verbatim>\<open>Error\<close>; the code reads nothing of it but \<^verbatim>\<open>message\<close>.\<close>

datatype error = Error string

section \<open>The browser driver\<close>

text \<open>
  The driver (puppeteer) is outside the repository. One orchestrator invocation meets one
  \<open>driver\<close>: for every call the code awaits, whether the returned promise resolves
  (\<open>None\<close>) or rejects with an \<^verbatim>\<open>Error\<close> of the given message; and \<open>close_ms\<close>, the
  milliseconds the promise of \<^verbatim>\<open>browser.close()\<close> takes to settle.
\<close>

type_synonym reply = "string option"

text \<open>What the page does when asked to navigate.\<close>

datatype nav = Loads nat | NeverSettles | NavRejects string

text \<open>
  What the in-page extraction meets in the document. Each guarded block of the extractor
  is given by the assignments to \<^verbatim>\<open>data\<close> it makes on this document, in order, and by
  the message of the error it throws after them, if it throws.
\<close>

type_synonym block = "(string \<times> jsval) list \<times> string option"

record dom =
  basic_info_block :: block
  about_block :: block
  experience_block :: block
  education_block :: block
  skills_block :: block

record driver =
  launch_r :: reply
  newPage_r :: reply
  setViewport_r :: reply
  setExtraHTTPHeaders_r :: reply
  authenticate_r :: reply
  goto_r :: nav
  waitForTimeout_r :: reply
  evaluate_r :: "string + dom"
  close_r :: reply
  close_ms :: nat

text \<open>The options object handed to \<^verbatim>\<open>puppeteer.launch\<close>.\<close>

record launch_options =
  headless :: string
  executablePath :: string
  args :: "string list"

text \<open>The calls the orchestrator makes on the driver, with their arguments.\<close>

datatype call =
    Launch launch_options
  | NewPage
  | SetViewport nat nat
  | SetExtraHTTPHeaders "(string \<times> string) list"
  | Authenticate "string option" "string option"
  | Goto jsval string nat
  | WaitForTimeout nat
  | Evaluate "jsval list"
  | Close

text \<open>The message of the driver's timeout error.\<close>

definition timeout_message :: string where
  "timeout_message = ''Navigation timeout of 30000 ms exceeded''"

text \<open>
  Modelled from the spec: the driver's \<^verbatim>\<open>Session.navigate(url, {waitUntil, timeoutMs})\<close>
  (puppeteer's \<^verbatim>\<open>page.goto\<close>), which is not part of the repository. The spec, section 6:
  it "fails with NavigationTimeout past the deadline". The result is the time in
  milliseconds after which the returned promise settles, and how it settles.
\<close>

fun navigate :: "nav \<Rightarrow> nat \<Rightarrow> nat \<times> reply" where
  "navigate (Loads n) timeout =
     (if n \<le> timeout then (n, None) else (timeout, Some timeout_message))"
| "navigate NeverSettles timeout = (timeout, Some timeout_message)"
| "navigate (NavRejects m) timeout = (0, Some m)"

section \<open>The in-page extractor\<close>

text \<open>
  The function handed to \<^verbatim>\<open>page.evaluate\<close>: \<^verbatim>\<open>data = {}\<close>, then inside one \<^verbatim>\<open>try\<close> the
  guarded blocks in order, then \<^verbatim>\<open>catch (e) { data.extraction_error = e.message }\<close>, then
  \<^verbatim>\<open>return data\<close>.
\<close>

definition assign_all :: "(string \<times> jsval) list \<Rightarrow> obj \<Rightarrow> obj" where
  "assign_all kvs data = foldl (\<lambda>d kv. set_field (fst kv) (snd kv) d) data kvs"

fun run_blocks :: "(bool \<times> block) list \<Rightarrow> obj \<Rightarrow> obj \<times> string option" where
  "run_blocks [] data = (data, None)"
| "run_blocks ((guard, (kvs, thrown)) # rest) data =
     (if \<not> guard then run_blocks rest data
      else (case thrown of
              Some m \<Rightarrow> (assign_all kvs data, Some m)
            | None \<Rightarrow> run_blocks rest (assign_all kvs data)))"

text \<open>\<^verbatim>\<open>sections.includes(name) || sections.length === 0\<close>, on an array.\<close>

definition wanted :: "jsval list \<Rightarrow> string \<Rightarrow> bool" where
  "wanted sections name = (JStr name \<in> set sections \<or> sections = [])"

definition extract_blocks :: "jsval list \<Rightarrow> dom \<Rightarrow> (bool \<times> block) list" where
  "extract_blocks sections d =
     [(wanted sections ''basic_info'', basic_info_block d),
      (wanted sections ''basic_info'', about_block d),
      (wanted sections ''experience'', experience_block d),
      (wanted sections ''education'', education_block d),
      (wanted sections ''skills'', skills_block d)]"

definition extractor :: "jsval list \<Rightarrow> dom \<Rightarrow> obj" where
  "extractor sections d =
     (case run_blocks (extract_blocks sections d) [] of
        (data, None) \<Rightarrow> data
      | (data, Some m) \<Rightarrow> set_field ''extraction_error'' (JStr m) data)"

section \<open>The scrape orchestrator\<close>

definition chrome_args :: "string list" where
  "chrome_args =
     [''--no-sandbox'', ''--disable-setuid-sandbox'', ''--disable-dev-shm-usage'',
      ''--disable-accelerated-2d-canvas'', ''--no-first-run'', ''--no-zygote'',
      ''--single-process'', ''--disable-gpu'', ''--disable-web-security'',
      ''--disable-features=VizDisplayCompositor'', ''--disable-extensions'',
      ''--disable-plugins'', ''--disable-images'', ''--disable-javascript'',
      ''--disable-background-timer-throttling'',
      ''--disable-backgrounding-occluded-windows'', ''--disable-renderer-backgrounding'',
      ''--user-agent=Mozilla/5.0 (Windows NT 10.0; Win64; x64) AppleWebKit/537.36 (KHTML, like Gecko) Chrome/91.0.4472.124 Safari/537.36'']"

definition extra_headers :: "(string \<times> string) list" where
  "extra_headers =
     [(''Accept-Language'', ''en-US,en;q=0.9''),
      (''Accept-Encoding'', ''gzip, deflate, br''),
      (''Accept'', ''text/html,application/xhtml+xml,application/xml;q=0.9,image/webp,*/*;q=0.8''),
      (''Connection'', ''keep-alive''),
      (''Upgrade-Insecure-Requests'', ''1'')]"

text \<open>The template \<^verbatim>\<open>`--proxy-server=${PROXY_CONFIG.endpoint}`\<close>.\<close>

definition proxy_arg :: "config \<Rightarrow> string" where
  "proxy_arg cfg =
     ''--proxy-server='' @ (case PROXY_ENDPOINT cfg of None \<Rightarrow> ''undefined'' | Some e \<Rightarrow> e)"

text \<open>
  The destructuring of line 79, \<^verbatim>\<open>{ url, extract_sections = [], use_proxy = false }\<close>: a
  default stands in for a field that is \<^verbatim>\<open>undefined\<close>.
\<close>

definition the_sections :: "request \<Rightarrow> jsval" where
  "the_sections req = (case extract_sections req of JUndefined \<Rightarrow> JArr [] | v \<Rightarrow> v)"

definition the_proxy :: "request \<Rightarrow> jsval" where
  "the_proxy req = (case use_proxy req of JUndefined \<Rightarrow> JBool False | v \<Rightarrow> v)"

text \<open>\<^verbatim>\<open>use_proxy && PROXY_CONFIG.enabled\<close>, as a condition.\<close>

definition via_proxy :: "config \<Rightarrow> request \<Rightarrow> bool" where
  "via_proxy cfg req = (truthy (the_proxy req) \<and> proxy_enabled cfg)"

text \<open>
  \<^verbatim>\<open>launchOptions\<close>, after \<^verbatim>\<open>launchOptions.args.push(...)\<close> when the request asks for the
  proxy and the proxy is configured.
\<close>

definition launchOptions :: "config \<Rightarrow> request \<Rightarrow> launch_options" where
  "launchOptions cfg req =
     \<lparr>headless = ''new'',
      executablePath = ''/usr/bin/google-chrome-stable'',
      args = (if via_proxy cfg req then chrome_args @ [proxy_arg cfg] else chrome_args)\<rparr>"

text \<open>
  A run of awaited driver calls: each is logged when it is made, and the first rejection
  ends the run with its message.
\<close>

fun awaits :: "(call \<times> reply) list \<Rightarrow> (call \<times> reply) list \<times> reply" where
  "awaits [] = ([], None)"
| "awaits ((c, None) # rest) = (case awaits rest of (cs, e) \<Rightarrow> ((c, None) # cs, e))"
| "awaits ((c, Some m) # rest) = ([(c, Some m)], Some m)"

text \<open>
  The \<^verbatim>\<open>try\<close> block once \<^verbatim>\<open>puppeteer.launch\<close> has resolved, \<open>sections\<close> being the array
  \<^verbatim>\<open>extract_sections\<close>: the calls made with their replies, and the value returned or the
  message of the error thrown. \<open>clock\<close> is the reading of \<^verbatim>\<open>new Date()\<close> at line 325,
  when the metadata is attached.
\<close>

definition with_browser ::
  "config \<Rightarrow> driver \<Rightarrow> int \<Rightarrow> request \<Rightarrow> jsval list
     \<Rightarrow> (call \<times> reply) list \<times> (string + obj)" where
  "with_browser cfg drv clock req sections =
     (case awaits
             ([(NewPage, newPage_r drv),
               (SetViewport 1366 768, setViewport_r drv),
               (SetExtraHTTPHeaders extra_headers, setExtraHTTPHeaders_r drv)]
              @ (if via_proxy cfg req
                 then [(Authenticate (PROXY_USERNAME cfg) (PROXY_PASSWORD cfg), authenticate_r drv)]
                 else [])
              @ [(Goto (url req) ''domcontentloaded'' 30000, snd (navigate (goto_r drv) 30000)),
                 (WaitForTimeout 2000, waitForTimeout_r drv)])
      of (cs, Some m) \<Rightarrow> (cs, Inl m)
       | (cs, None) \<Rightarrow>
           (case evaluate_r drv of
              Inl m \<Rightarrow> (cs @ [(Evaluate sections, Some m)], Inl m)
            | Inr d \<Rightarrow>
                (cs @ [(Evaluate sections, None)],
                 Inr (set_field ''user_agent'' (JStr ''LinkedIn-Scraper-Service/1.0'')
                       (set_field ''url'' (url req)
                         (set_field ''scraped_at'' (JTime clock)
                           (extractor sections d)))))))"

text \<open>What one invocation did on the driver, and what it returned or threw.\<close>

record scrape_run =
  calls :: "(call \<times> reply) list"
  outcome :: "error + obj"

text \<open>
  Lines 122 to 341, the \<^verbatim>\<open>try\<close>/\<^verbatim>\<open>catch\<close>/\<^verbatim>\<open>finally\<close>: \<^verbatim>\<open>browser\<close> is assigned only when
  \<^verbatim>\<open>launch\<close> resolves; \<^verbatim>\<open>catch\<close> rethrows every error under the prefix
  \<^verbatim>\<open>Failed to scrape LinkedIn profile: \<close>; \<^verbatim>\<open>finally\<close> awaits \<^verbatim>\<open>browser.close()\<close> when
  \<^verbatim>\<open>browser\<close> is set, and a rejection of \<^verbatim>\<open>close\<close> replaces whatever the function was
  about to return or throw.
\<close>

definition launched ::
  "config \<Rightarrow> driver \<Rightarrow> int \<Rightarrow> request \<Rightarrow> jsval list \<Rightarrow> scrape_run" where
  "launched cfg drv clock req sections =
     (case launch_r drv of
        Some m \<Rightarrow>
          \<lparr>calls = [(Launch (launchOptions cfg req), Some m)],
           outcome = Inl (Error (''Failed to scrape LinkedIn profile: '' @ m))\<rparr>
      | None \<Rightarrow>
          (case with_browser cfg drv clock req sections of (cs, r) \<Rightarrow>
             \<lparr>calls = (Launch (launchOptions cfg req), None) # cs @ [(Close, close_r drv)],
              outcome =
                (case close_r drv of
                   Some m' \<Rightarrow> Inl (Error m')
                 | None \<Rightarrow>
                     (case r of
                        Inl m \<Rightarrow> Inl (Error (''Failed to scrape LinkedIn profile: '' @ m))
                      | Inr data \<Rightarrow> Inr data))\<rparr>))"

text \<open>
  \<^verbatim>\<open>scrapeLinkedInProfile\<close>. Before the \<^verbatim>\<open>try\<close>, and so before any call on the driver:
  the guard of line 81, \<^verbatim>\<open>!url || !url.includes('linkedin.com/in/')\<close>, throws
  \<^verbatim>\<open>Invalid LinkedIn URL provided\<close> when it is true and a \<^verbatim>\<open>TypeError\<close> when \<^verbatim>\<open>url\<close> is
  truthy and has no \<^verbatim>\<open>includes\<close>; line 87, \<^verbatim>\<open>extract_sections.join(', ')\<close>, throws a
  \<^verbatim>\<open>TypeError\<close> when \<^verbatim>\<open>extract_sections\<close> is not an array (the handler never stores
  \<^verbatim>\<open>null\<close> there, the function taken alone can be given it).
\<close>

definition scrapeLinkedInProfile :: "config \<Rightarrow> driver \<Rightarrow> int \<Rightarrow> request \<Rightarrow> scrape_run" where
  "scrapeLinkedInProfile cfg drv clock req =
     (if \<not> truthy (url req)
      then \<lparr>calls = [], outcome = Inl (Error ''Invalid LinkedIn URL provided'')\<rparr>
      else (case includes_pattern (url req) of
              None \<Rightarrow> \<lparr>calls = [], outcome = Inl (Error ''url.includes is not a function'')\<rparr>
            | Some False \<Rightarrow>
                \<lparr>calls = [], outcome = Inl (Error ''Invalid LinkedIn URL provided'')\<rparr>
            | Some True \<Rightarrow>
                (case the_sections req of
                   JArr sections \<Rightarrow> launched cfg drv clock req sections
                 | JNull \<Rightarrow>
                     \<lparr>calls = [],
                      outcome = Inl (Error ''Cannot read properties of null (reading 'join')'')\<rparr>
                 | _ \<Rightarrow>
                     \<lparr>calls = [],
                      outcome = Inl (Error ''extract_sections.join is not a function'')\<rparr>)))"

section \<open>The queue and its drain loop\<close>

text \<open>
  A queue entry: the request and the Express response object it is answered on. The
  response object is identified by a number.
\<close>

record entry =
  request :: request
  response :: nat

text \<open>
  \<^verbatim>\<open>processQueue\<close> is an \<^verbatim>\<open>async\<close> function: a call runs until its first \<^verbatim>\<open>await\<close> and
  leaves a suspended continuation behind. It awaits in two places: the orchestrator, and
  the timer of the inter-job delay (kept with the time at which the timer is due).
\<close>

datatype task = AwaitScrape entry | AwaitDelay int

text \<open>
  What the code does that can be seen from outside, stamped with the clock: a push on the
  queue, a call of the orchestrator, an answer given by the drain loop (\<open>Respond\<close>), an
  answer given by the handler or by the error middleware to a request that is not queued
  (\<open>Refused\<close>), and a call of \<^verbatim>\<open>setTimeout\<close> with its delay.
\<close>

datatype action =
    Enqueued nat
  | Invoked nat
  | Respond nat nat obj
  | Refused nat nat obj
  | Sleep int

record state =
  requestQueue :: "entry list"
  isProcessing :: bool
  tasks :: "task list"
  now :: int
  trace :: "(int \<times> action) list"

definition init :: state where
  "init = \<lparr>requestQueue = [], isProcessing = False, tasks = [], now = 0, trace = []\<rparr>"

definition emit :: "action \<Rightarrow> state \<Rightarrow> state" where
  "emit a s = s\<lparr>trace := trace s @ [(now s, a)]\<rparr>"

definition success_payload :: "obj \<Rightarrow> int \<Rightarrow> obj" where
  "success_payload data t =
     [(''success'', JBool True), (''data'', JObj data), (''timestamp'', JTime t)]"

definition failure_payload :: "string \<Rightarrow> int \<Rightarrow> obj" where
  "failure_payload msg t =
     [(''success'', JBool False), (''error'', JStr msg), (''timestamp'', JTime t)]"

text \<open>The payload of the error-handling middleware (line 450), which answers with status 500.\<close>

definition server_error_payload :: "string \<Rightarrow> int \<Rightarrow> obj" where
  "server_error_payload msg t =
     [(''success'', JBool False), (''error'', JStr ''Internal server error''),
      (''message'', JStr msg), (''timestamp'', JTime t)]"

text \<open>
  The head of the \<^verbatim>\<open>while\<close> loop: when the queue is empty the loop ends and the flag is
  cleared; otherwise the head entry is shifted off, the orchestrator is called with its
  request, and the loop is suspended on the orchestrator's promise.
\<close>

definition loop_head :: "state \<Rightarrow> state" where
  "loop_head s =
     (case requestQueue s of
        [] \<Rightarrow> s\<lparr>isProcessing := False\<rparr>
      | e # q \<Rightarrow>
          emit (Invoked (response e))
            (s\<lparr>requestQueue := q, tasks := tasks s @ [AwaitScrape e]\<rparr>))"

definition processQueue :: "state \<Rightarrow> state" where
  "processQueue s =
     (if isProcessing s \<or> requestQueue s = [] then s
      else loop_head (s\<lparr>isProcessing := True\<rparr>))"

text \<open>
  The \<^verbatim>\<open>try\<close>/\<^verbatim>\<open>catch\<close> around the awaited orchestrator: \<^verbatim>\<open>response.json\<close> answers with
  status 200 and the result, the \<^verbatim>\<open>catch\<close> answers with status 500 and the error's
  message. \<open>t\<close> is the clock when the orchestrator's promise settles, which is when the
  answer is stamped. The metadata was stamped before \<^verbatim>\<open>browser.close()\<close> was awaited, the
  time \<^verbatim>\<open>close\<close> took earlier.
\<close>

definition settle_response :: "config \<Rightarrow> driver \<Rightarrow> entry \<Rightarrow> int \<Rightarrow> action" where
  "settle_response cfg drv e t =
     (case outcome (scrapeLinkedInProfile cfg drv (t - int (close_ms drv)) (request e)) of
        Inr data \<Rightarrow> Respond (response e) 200 (success_payload data t)
      | Inl (Error m) \<Rightarrow> Respond (response e) 500 (failure_payload m t))"

text \<open>
  The delay the runtime gives a timer: Node's \<^verbatim>\<open>setTimeout(f, d)\<close> sets a delay below 1
  or above 2147483647 to 1.
\<close>

definition timer_delay :: "int \<Rightarrow> int" where
  "timer_delay d = (if d < 1 \<or> 2147483647 < d then 1 else d)"

text \<open>
  The loop body after the orchestrator's promise has settled: answer the entry's
  response, then, when entries remain, call \<^verbatim>\<open>setTimeout\<close> with \<^verbatim>\<open>RATE_LIMIT_DELAY\<close> and
  suspend; else go back to the loop head.
\<close>

definition after_scrape :: "config \<Rightarrow> driver \<Rightarrow> entry \<Rightarrow> state \<Rightarrow> state" where
  "after_scrape cfg drv e s =
     (let s1 = emit (settle_response cfg drv e (now s)) s
      in if requestQueue s1 \<noteq> []
         then emit (Sleep (RATE_LIMIT_DELAY cfg))
                (s1\<lparr>tasks := tasks s1 @
                      [AwaitDelay (now s1 + timer_delay (RATE_LIMIT_DELAY cfg))]\<rparr>)
         else loop_head s1)"

text \<open>
  The entry the handler pushes: \<^verbatim>\<open>{ request: { url, extract_sections: extract_sections ||
  [...], use_proxy: use_proxy || false, wait_time: wait_time || RATE_LIMIT_DELAY,
  retry_attempts: retry_attempts || 2 }, response: res }\<close>.
\<close>

definition queue_entry :: "config \<Rightarrow> body \<Rightarrow> nat \<Rightarrow> entry" where
  "queue_entry cfg b res =
     \<lparr>request =
        \<lparr>url = body_url b,
         extract_sections =
           js_or (body_extract_sections b)
             (JArr [JStr ''basic_info'', JStr ''experience'', JStr ''education'', JStr ''skills'']),
         use_proxy = js_or (body_use_proxy b) (JBool False),
         wait_time = js_or (body_wait_time b) (JNum (RATE_LIMIT_DELAY cfg)),
         retry_attempts = js_or (body_retry_attempts b) (JNum 2)\<rparr>,
      response = res\<rparr>"

text \<open>
  The handler of \<^verbatim>\<open>POST /scrape\<close>, answering on response object \<open>res\<close>. When \<^verbatim>\<open>url\<close> is
  truthy and has no \<^verbatim>\<open>includes\<close>, line 387 throws a \<^verbatim>\<open>TypeError\<close>, which Express hands
  to the error middleware.
\<close>

definition post_scrape :: "config \<Rightarrow> body \<Rightarrow> nat \<Rightarrow> state \<Rightarrow> state" where
  "post_scrape cfg b res s =
     (if \<not> truthy (body_url b)
      then emit (Refused res 400 (failure_payload ''LinkedIn URL is required'' (now s))) s
      else (case includes_pattern (body_url b) of
              None \<Rightarrow>
                emit (Refused res 500
                       (server_error_payload ''url.includes is not a function'' (now s))) s
            | Some False \<Rightarrow>
                emit (Refused res 400
                       (failure_payload
                          ''Invalid LinkedIn URL format. Must be a LinkedIn profile URL.''
                          (now s))) s
            | Some True \<Rightarrow>
                processQueue
                  (emit (Enqueued res)
                     (s\<lparr>requestQueue := requestQueue s @ [queue_entry cfg b res]\<rparr>))))"

text \<open>
  What the event loop can run next: a request arriving, the promise of the orchestrator
  awaited by the \<open>i\<close>-th suspended continuation settling (the driver having behaved as
  given), the timer of the \<open>i\<close>-th continuation firing, or time passing. A timer does
  not fire before it is due; an event that names no continuation of its kind changes
  nothing.
\<close>

datatype input =
    Submit body nat
  | ScrapeDone nat driver
  | TimerFired nat
  | Tick nat

definition drop_task :: "nat \<Rightarrow> state \<Rightarrow> state" where
  "drop_task i s = s\<lparr>tasks := take i (tasks s) @ drop (Suc i) (tasks s)\<rparr>"

fun step :: "config \<Rightarrow> state \<Rightarrow> input \<Rightarrow> state" where
  "step cfg s (Submit b res) = post_scrape cfg b res s"
| "step cfg s (ScrapeDone i drv) =
     (if i < length (tasks s)
      then (case tasks s ! i of
              AwaitScrape e \<Rightarrow> after_scrape cfg drv e (drop_task i s)
            | AwaitDelay d \<Rightarrow> s)
      else s)"
| "step cfg s (TimerFired i) =
     (if i < length (tasks s)
      then (case tasks s ! i of
              AwaitDelay d \<Rightarrow> if d \<le> now s then loop_head (drop_task i s) else s
            | AwaitScrape e \<Rightarrow> s)
      else s)"
| "step cfg s (Tick n) = s\<lparr>now := now s + int n\<rparr>"

definition run :: "config \<Rightarrow> input list \<Rightarrow> state" where
  "run cfg evs = foldl (step cfg) init evs"

section \<open>Counting sessions\<close>



section \<open>The locator check\<close>

text \<open>
  The check of lines 81 and 379 to 387 lets a value through: \<^verbatim>\<open>url\<close> is truthy and
  \<^verbatim>\<open>url.includes('linkedin.com/in/')\<close> is \<^verbatim>\<open>true\<close>.
\<close>

definition admitted :: "jsval \<Rightarrow> bool" where
  "admitted v = (truthy v \<and> includes_pattern v = Some True)"




section \<open>Example inputs\<close>

definition cfg_default :: config where
  "cfg_default =
     \<lparr>SCRAPER_RATE_LIMIT_DELAY = None, PROXY_ENDPOINT = None,
      PROXY_USERNAME = None, PROXY_PASSWORD = None\<rparr>"



text \<open>A page on which the first block assigns a name and then throws.\<close>

definition page_partial :: dom where
  "page_partial =
     \<lparr>basic_info_block = ([(''name'', JStr ''X'')], Some ''boom''), about_block = ([], None),
      experience_block = ([], None), education_block = ([], None),
      skills_block = ([], None)\<rparr>"

definition drv_ok :: driver where
  "drv_ok =
     \<lparr>launch_r = None, newPage_r = None, setViewport_r = None,
      setExtraHTTPHeaders_r = None, authenticate_r = None, goto_r = Loads 100,
      waitForTimeout_r = None, evaluate_r = Inr page_partial, close_r = None,
      close_ms = 40\<rparr>"


definition drv_nolaunch :: driver where
  "drv_nolaunch = drv_ok\<lparr>launch_r := Some ''no chrome''\<rparr>"

definition req_valid :: request where
  "req_valid =
     \<lparr>url = JStr ''https://linkedin.com/in/x'', extract_sections = JArr [],
      use_proxy = JBool False, wait_time = JNum 3000, retry_attempts = JNum 2\<rparr>"

definition body_none :: body where
  "body_none =
     \<lparr>body_url = JUndefined, body_extract_sections = JUndefined, body_use_proxy = JUndefined,
      body_wait_time = JUndefined, body_retry_attempts = JUndefined\<rparr>"


definition body_valid :: body where
  "body_valid = body_none\<lparr>body_url := JStr ''https://linkedin.com/in/x''\<rparr>"






section \<open>Notions for the properties of the drain loop\<close>

text \<open>The orchestrator invocations in flight: the continuations suspended on one.\<close>

fun awaited :: "task list \<Rightarrow> nat list" where
  "awaited [] = []"
| "awaited (AwaitScrape e # ts) = response e # awaited ts"
| "awaited (AwaitDelay d # ts) = awaited ts"

definition in_flight :: "state \<Rightarrow> nat" where
  "in_flight s = length (awaited (tasks s))"

text \<open>
  The shapes the state takes: nothing suspended, the flag down and the queue empty; or one
  continuation suspended on the orchestrator, the flag up; or one continuation suspended
  on the delay timer, the flag up, the queue not empty, and the timer due no later than
  one timer delay from now.
\<close>

definition shape :: "config \<Rightarrow> state \<Rightarrow> bool" where
  "shape cfg s =
     (case tasks s of
        [] \<Rightarrow> \<not> isProcessing s \<and> requestQueue s = []
      | [AwaitScrape e] \<Rightarrow> isProcessing s
      | [AwaitDelay d] \<Rightarrow>
          isProcessing s \<and> requestQueue s \<noteq> []
          \<and> d \<le> now s + timer_delay (RATE_LIMIT_DELAY cfg)
      | _ \<Rightarrow> False)"


text \<open>Two accepted submissions, and the state after them: the first in flight, the second queued.\<close>

definition entry1 :: entry where
  "entry1 =
     \<lparr>request = req_valid\<lparr>extract_sections :=
          JArr [JStr ''basic_info'', JStr ''experience'', JStr ''education'', JStr ''skills'']\<rparr>,
      response = 7\<rparr>"

definition entry2 :: entry where
  "entry2 = entry1\<lparr>response := 8\<rparr>"

definition busy :: state where
  "busy = \<lparr>requestQueue = [entry2], isProcessing = True, tasks = [AwaitScrape entry1], now = 0,
     trace = [(0, Enqueued 7), (0, Invoked 7), (0, Enqueued 8)]\<rparr>"


text \<open>The responses the drain loop has answered, in order.\<close>

fun answered :: "(int \<times> action) list \<Rightarrow> nat list" where
  "answered [] = []"
| "answered ((t, Respond res st p) # tr) = res # answered tr"
| "answered ((t, Refused res st p) # tr) = answered tr"
| "answered ((t, Enqueued res) # tr) = answered tr"
| "answered ((t, Invoked res) # tr) = answered tr"
| "answered ((t, Sleep d) # tr) = answered tr"

text \<open>The responses of the submissions that pass the handler's validation, in order.\<close>

fun accepted :: "input list \<Rightarrow> nat list" where
  "accepted [] = []"
| "accepted (Submit b res # evs) =
     (if admitted (body_url b) then res # accepted evs else accepted evs)"
| "accepted (ScrapeDone i drv # evs) = accepted evs"
| "accepted (TimerFired i # evs) = accepted evs"
| "accepted (Tick n # evs) = accepted evs"

text \<open>
  An environment that lets the loop finish: the pending timer fires once its delay has
  passed, and then, for each driver behaviour in turn, the invocation in flight settles
  and the timer set after it fires once its delay has passed.
\<close>

definition settle_one :: "config \<Rightarrow> driver \<Rightarrow> input list" where
  "settle_one cfg drv =
     [ScrapeDone 0 drv, Tick (nat (timer_delay (RATE_LIMIT_DELAY cfg))), TimerFired 0]"

definition settle_events :: "config \<Rightarrow> driver list \<Rightarrow> input list" where
  "settle_events cfg drvs =
     [Tick (nat (timer_delay (RATE_LIMIT_DELAY cfg))), TimerFired 0]
     @ concat (map (settle_one cfg) drvs)"

text \<open>The jobs accepted and not yet answered.\<close>

definition pending :: "state \<Rightarrow> nat" where
  "pending s = in_flight s + length (requestQueue s)"

text \<open>
  The ledger of a state: the responses answered by the loop, then the one in flight, then
  those still queued.
\<close>

definition ledger :: "state \<Rightarrow> nat list" where
  "ledger s = answered (trace s) @ awaited (tasks s) @ map response (requestQueue s)"

text \<open>The loop is not suspended on a timer.\<close>

definition settled :: "state \<Rightarrow> bool" where
  "settled s = (\<forall>d. tasks s \<noteq> [AwaitDelay d])"

section \<open>The inter-job delay, as a check on traces\<close>

text \<open>
  A reading of the trace that follows the words of the specification. It counts the
  entries in the queue (\<open>queued\<close>) and keeps the job that has been started and not yet
  answered (\<open>running\<close>). A job completes when the loop answers it. When the loop answers
  a job while entries remain, a delay is owed (\<open>owed\<close>) and the next job may start no
  earlier than one delay after the answer (\<open>earliest\<close>). The trace is in order
  (\<open>in_order\<close>) when every answer is to the job running; every timer is set when a delay
  is owed, for the configured delay; and every job starts with no job running, no delay
  owed and not before the earliest time allowed.
\<close>

record watch =
  queued :: nat
  running :: "nat option"
  earliest :: "int option"
  owed :: bool
  in_order :: bool

fun watch_step :: "int \<Rightarrow> watch \<Rightarrow> int \<times> action \<Rightarrow> watch" where
  "watch_step d w (t, Enqueued res) = w\<lparr>queued := Suc (queued w)\<rparr>"
| "watch_step d w (t, Refused res st p) = w"
| "watch_step d w (t, Respond res st p) =
     (if 0 < queued w
      then w\<lparr>running := None, earliest := Some (t + d), owed := True,
             in_order := in_order w \<and> running w = Some res\<rparr>
      else w\<lparr>running := None, earliest := None, owed := False,
             in_order := in_order w \<and> running w = Some res\<rparr>)"
| "watch_step d w (t, Sleep k) =
     w\<lparr>owed := False, in_order := in_order w \<and> owed w \<and> k = d\<rparr>"
| "watch_step d w (t, Invoked res) =
     w\<lparr>queued := queued w - 1, running := Some res, earliest := None,
       in_order := in_order w \<and> running w = None \<and> \<not> owed w
         \<and> (case earliest w of None \<Rightarrow> True | Some m \<Rightarrow> m \<le> t)\<rparr>"

definition watch_trace :: "int \<Rightarrow> (int \<times> action) list \<Rightarrow> watch" where
  "watch_trace d tr =
     foldl (watch_step d)
       \<lparr>queued = 0, running = None, earliest = None, owed = False, in_order = True\<rparr> tr"

definition spaced :: "int \<Rightarrow> (int \<times> action) list \<Rightarrow> bool" where
  "spaced d tr = in_order (watch_trace d tr)"


section \<open>Forgetting the per-job wait\<close>

text \<open>
  Two states are the same but for the \<^verbatim>\<open>wait_time\<close> of the requests they hold when
  \<open>forget_wait\<close> maps them to the same state; two events are the same but for the
  \<^verbatim>\<open>wait_time\<close> submitted when \<open>forget_input\<close> maps them to the same event.
\<close>

definition forget_entry :: "entry \<Rightarrow> entry" where
  "forget_entry e = e\<lparr>request := (request e)\<lparr>wait_time := JUndefined\<rparr>\<rparr>"

fun forget_task :: "task \<Rightarrow> task" where
  "forget_task (AwaitScrape e) = AwaitScrape (forget_entry e)"
| "forget_task (AwaitDelay d) = AwaitDelay d"

definition forget_wait :: "state \<Rightarrow> state" where
  "forget_wait s =
     s\<lparr>requestQueue := map forget_entry (requestQueue s), tasks := map forget_task (tasks s)\<rparr>"

fun forget_input :: "input \<Rightarrow> input" where
  "forget_input (Submit b res) = Submit (b\<lparr>body_wait_time := JUndefined\<rparr>) res"
| "forget_input (ScrapeDone i drv) = ScrapeDone i drv"
| "forget_input (TimerFired i) = TimerFired i"
| "forget_input (Tick n) = Tick n"

text \<open>The delays of the timers the loop has set.\<close>

fun sleeps :: "(int \<times> action) list \<Rightarrow> int list" where
  "sleeps [] = []"
| "sleeps ((t, Sleep k) # tr) = k # sleeps tr"
| "sleeps ((t, Enqueued res) # tr) = sleeps tr"
| "sleeps ((t, Invoked res) # tr) = sleeps tr"
| "sleeps ((t, Respond res st p) # tr) = sleeps tr"
| "sleeps ((t, Refused res st p) # tr) = sleeps tr"

definition body_slow :: body where
  "body_slow = body_valid\<lparr>body_wait_time := JNum 60000\<rparr>"

section \<open>Properties of the orchestrator\<close>























section \<open>Properties of the drain loop\<close>

lemma after_scrape_eq:
  "after_scrape cfg drv e s =
     (if requestQueue s = []
      then s\<lparr>trace := trace s @ [(now s, settle_response cfg drv e (now s))],
             isProcessing := False\<rparr>
      else s\<lparr>trace := trace s @ [(now s, settle_response cfg drv e (now s)),
                                   (now s, Sleep (RATE_LIMIT_DELAY cfg))],
             tasks := tasks s @ [AwaitDelay (now s + timer_delay (RATE_LIMIT_DELAY cfg))]\<rparr>)"
  by (simp add: after_scrape_def emit_def loop_head_def Let_def)

lemma run_snoc: "run cfg (evs @ [ev]) = step cfg (run cfg evs) ev"
  by (simp add: run_def)

lemma run_append: "run cfg (evs @ evs') = foldl (step cfg) (run cfg evs) evs'"
  by (simp add: run_def)

lemma post_scrape_admitted:
  "admitted (body_url b) \<Longrightarrow>
     post_scrape cfg b res s =
       processQueue (emit (Enqueued res)
         (s\<lparr>requestQueue := requestQueue s @ [queue_entry cfg b res]\<rparr>))"
  by (simp add: post_scrape_def admitted_def)

lemma post_scrape_refused:
  "\<not> admitted (body_url b) \<Longrightarrow> \<exists>st p. post_scrape cfg b res s = emit (Refused res st p) s"
  by (auto simp: post_scrape_def admitted_def split: option.splits bool.splits)

lemma shape_cases:
  assumes "shape cfg s"
  obtains (idle) "tasks s = []" "\<not> isProcessing s" "requestQueue s = []"
    | (scraping) e where "tasks s = [AwaitScrape e]" "isProcessing s"
    | (delaying) d where "tasks s = [AwaitDelay d]" "isProcessing s" "requestQueue s \<noteq> []"
        "d \<le> now s + timer_delay (RATE_LIMIT_DELAY cfg)"
  using assms unfolding shape_def
  by (auto split: list.splits task.splits)

lemma shape_post_scrape: "shape cfg s \<Longrightarrow> shape cfg (post_scrape cfg b res s)"
proof (cases "admitted (body_url b)")
  case True
  assume "shape cfg s"
  then show ?thesis
    by (cases rule: shape_cases)
      (auto simp: post_scrape_admitted[OF True] shape_def emit_def processQueue_def
        loop_head_def split: list.splits)
next
  case False
  assume "shape cfg s"
  moreover from False obtain st p where "post_scrape cfg b res s = emit (Refused res st p) s"
    using post_scrape_refused by blast
  ultimately show ?thesis
    by (cases rule: shape_cases) (simp_all add: shape_def emit_def)
qed

lemma shape_step: "shape cfg s \<Longrightarrow> shape cfg (step cfg s ev)"
proof (cases ev)
  case (Submit b res)
  assume "shape cfg s"
  then show ?thesis using Submit by (simp add: shape_post_scrape)
next
  case (ScrapeDone i drv)
  assume "shape cfg s"
  then show ?thesis using ScrapeDone
    by (cases rule: shape_cases)
      (auto simp: shape_def after_scrape_eq drop_task_def loop_head_def emit_def
        split: list.splits)
next
  case (TimerFired i)
  assume "shape cfg s"
  then show ?thesis using TimerFired
    by (cases rule: shape_cases)
      (auto simp: shape_def drop_task_def loop_head_def emit_def split: list.splits)
next
  case (Tick n)
  assume "shape cfg s"
  then show ?thesis using Tick
    by (cases rule: shape_cases) (auto simp: shape_def)
qed

lemma shape_init: "shape cfg init"
  by (simp add: shape_def init_def)

lemma shape_run: "shape cfg (run cfg evs)"
  by (induction evs rule: rev_induct) (simp_all add: run_snoc shape_step, simp add: run_def shape_init)

lemma run_busy: "run cfg_default [Submit body_valid 7, Submit body_valid 8] = busy"
  by (simp add: run_def init_def post_scrape_def queue_entry_def body_valid_def body_none_def
      processQueue_def loop_head_def emit_def busy_def entry1_def entry2_def req_valid_def
      cfg_default_def RATE_LIMIT_DELAY_def js_or_def)


text \<open>
  Claim C3. \<^verbatim>\<open>processQueue\<close> changes nothing when the flag is already up or the queue is
  empty, and calling it twice is calling it once. In every state the service can reach, at
  most one continuation of the drain loop is suspended, so at most one orchestrator
  invocation is in flight.
\<close>

theorem drain_idempotent_single_flight:
  "(isProcessing s \<or> requestQueue s = [] \<longrightarrow> processQueue s = s)
   \<and> processQueue (processQueue s) = processQueue s
   \<and> in_flight (run cfg evs) \<le> 1
   \<and> length (tasks (run cfg evs)) \<le> 1"
proof -
  have a: "isProcessing s \<or> requestQueue s = [] \<longrightarrow> processQueue s = s"
    by (simp add: processQueue_def)
  have b: "processQueue (processQueue s) = processQueue s"
    by (simp add: processQueue_def loop_head_def emit_def split: list.splits)
  have "shape cfg (run cfg evs)" by (rule shape_run)
  then have c: "in_flight (run cfg evs) \<le> 1 \<and> length (tasks (run cfg evs)) \<le> 1"
    by (cases rule: shape_cases) (simp_all add: in_flight_def)
  from a b c show ?thesis by blast
qed

theorem drain_idempotent_single_flight_witness:
  "isProcessing busy \<and> processQueue busy = busy
   \<and> in_flight (run cfg_default [Submit body_valid 7, Submit body_valid 8]) \<le> 1"
  using drain_idempotent_single_flight[of busy cfg_default "[Submit body_valid 7, Submit body_valid 8]"]
  by (simp add: busy_def)







lemma admitted_string:
  "admitted v \<Longrightarrow> v = JStr u \<Longrightarrow> str_includes u ''linkedin.com/in/''"
  by (simp add: admitted_def)





text \<open>
  Claim C4. A failing job does not abort the drain loop. When the orchestrator invocation
  in flight fails with message \<open>m\<close>, the loop answers that job's response with status
  500 and the payload \<^verbatim>\<open>{ success: false, error: m, timestamp }\<close>. With the queue empty it
  then ends as after a success, the flag cleared. With entries left it calls
  \<^verbatim>\<open>setTimeout\<close> with \<^verbatim>\<open>RATE_LIMIT_DELAY\<close>, and when the timer fires, once its delay has
  passed, it takes the next entry off the queue and hands it to the orchestrator.
\<close>

theorem failure_does_not_abort_drain:
  assumes "tasks s = [AwaitScrape e]"
    and "outcome (scrapeLinkedInProfile cfg drv (now s - int (close_ms drv)) (request e))
           = Inl (Error m)"
  shows "(requestQueue s = [] \<longrightarrow>
           step cfg s (ScrapeDone 0 drv) =
             s\<lparr>tasks := [], isProcessing := False,
               trace := trace s @
                 [(now s, Respond (response e) 500
                    [(''success'', JBool False), (''error'', JStr m),
                     (''timestamp'', JTime (now s))])]\<rparr>)
    \<and> (\<forall>e' q. requestQueue s = e' # q \<longrightarrow>
           step cfg s (ScrapeDone 0 drv) =
             s\<lparr>tasks := [AwaitDelay (now s +
                   (if RATE_LIMIT_DELAY cfg < 1 \<or> 2147483647 < RATE_LIMIT_DELAY cfg then 1
                    else RATE_LIMIT_DELAY cfg))],
               trace := trace s @
                 [(now s, Respond (response e) 500
                    [(''success'', JBool False), (''error'', JStr m),
                     (''timestamp'', JTime (now s))]),
                  (now s, Sleep (RATE_LIMIT_DELAY cfg))]\<rparr>
           \<and> (\<forall>n. (if RATE_LIMIT_DELAY cfg < 1 \<or> 2147483647 < RATE_LIMIT_DELAY cfg then 1
                    else RATE_LIMIT_DELAY cfg) \<le> int n \<longrightarrow>
                 step cfg (step cfg (step cfg s (ScrapeDone 0 drv)) (Tick n)) (TimerFired 0) =
                   s\<lparr>now := now s + int n, requestQueue := q, tasks := [AwaitScrape e'],
                     trace := trace s @
                       [(now s, Respond (response e) 500
                          [(''success'', JBool False), (''error'', JStr m),
                           (''timestamp'', JTime (now s))]),
                        (now s, Sleep (RATE_LIMIT_DELAY cfg)),
                        (now s + int n, Invoked (response e'))]\<rparr>))"
  using assms
  by (auto simp: after_scrape_eq drop_task_def settle_response_def loop_head_def emit_def
      failure_payload_def timer_delay_def)

lemma nolaunch_fails:
  "outcome (scrapeLinkedInProfile cfg_default drv_nolaunch (now busy - int (close_ms drv_nolaunch))
       (request entry1))
     = Inl (Error ''Failed to scrape LinkedIn profile: no chrome'')"
  by (simp add: scrapeLinkedInProfile_def launched_def drv_nolaunch_def drv_ok_def entry1_def
      req_valid_def the_sections_def)

theorem failure_does_not_abort_drain_witness:
  "step cfg_default (step cfg_default (step cfg_default busy (ScrapeDone 0 drv_nolaunch)) (Tick 3000))
     (TimerFired 0) =
   busy\<lparr>now := 3000, requestQueue := [], tasks := [AwaitScrape entry2],
     trace := trace busy @
       [(0, Respond 7 500
           [(''success'', JBool False),
            (''error'', JStr ''Failed to scrape LinkedIn profile: no chrome''),
            (''timestamp'', JTime 0)]),
        (0, Sleep 3000), (3000, Invoked 8)]\<rparr>"
proof -
  have t: "tasks busy = [AwaitScrape entry1]" by (simp add: busy_def)
  have q: "requestQueue busy = entry2 # []" by (simp add: busy_def)
  have r: "RATE_LIMIT_DELAY cfg_default = 3000" by (simp add: RATE_LIMIT_DELAY_def cfg_default_def)
  have le: "(if RATE_LIMIT_DELAY cfg_default < 1 \<or> 2147483647 < RATE_LIMIT_DELAY cfg_default then 1
       else RATE_LIMIT_DELAY cfg_default) \<le> int 3000" by (simp add: r)
  note F = failure_does_not_abort_drain[OF t nolaunch_fails, THEN conjunct2, rule_format, OF q,
      THEN conjunct2, rule_format, OF le]
  show ?thesis
    unfolding F by (simp add: r busy_def entry1_def entry2_def)
qed

lemma answered_append: "answered (xs @ ys) = answered xs @ answered ys"
  by (induction xs rule: answered.induct) simp_all

lemma accepted_append: "accepted (xs @ ys) = accepted xs @ accepted ys"
  by (induction xs rule: accepted.induct) simp_all

lemma accepted_settle_events: "accepted (settle_events cfg drvs) = []"
  by (induction drvs) (simp_all add: settle_events_def settle_one_def)

lemma shape_foldl: "shape cfg s \<Longrightarrow> shape cfg (foldl (step cfg) s evs)"
  by (induction evs arbitrary: s) (simp_all add: shape_step del: step.simps)

lemma settle_response_answered:
  "answered ((t, settle_response cfg drv e t') # tr) = response e # answered tr"
  by (simp add: settle_response_def split: sum.splits error.splits)

lemma ledger_post_scrape:
  assumes "shape cfg s"
  shows "ledger (post_scrape cfg b res s) = ledger s @ accepted [Submit b res]"
proof (cases "admitted (body_url b)")
  case True
  from assms show ?thesis
    by (cases rule: shape_cases)
      (auto simp: True post_scrape_admitted[OF True] ledger_def queue_entry_def emit_def
        processQueue_def loop_head_def answered_append split: list.splits)
next
  case False
  then obtain st p where "post_scrape cfg b res s = emit (Refused res st p) s"
    using post_scrape_refused by blast
  with False show ?thesis
    by (simp add: ledger_def emit_def answered_append)
qed

lemma ledger_step:
  assumes "shape cfg s"
  shows "ledger (step cfg s ev) = ledger s @ accepted [ev]"
proof (cases ev)
  case (Submit b res)
  then show ?thesis using assms ledger_post_scrape[of cfg s b res] by simp
next
  case (ScrapeDone i drv)
  from assms show ?thesis using ScrapeDone
    by (cases rule: shape_cases)
      (auto simp: ledger_def after_scrape_eq drop_task_def answered_append
        settle_response_answered)
next
  case (TimerFired i)
  from assms show ?thesis using TimerFired
    by (cases rule: shape_cases)
      (auto simp: ledger_def drop_task_def loop_head_def emit_def answered_append
        split: list.splits)
next
  case (Tick n)
  then show ?thesis by (simp add: ledger_def)
qed

lemma ledger_run: "ledger (run cfg evs) = accepted evs"
proof (induction evs rule: rev_induct)
  case Nil
  show ?case by (simp add: run_def ledger_def init_def)
next
  case (snoc ev evs)
  then show ?case
    by (simp add: run_snoc ledger_step[OF shape_run] accepted_append)
qed

lemma fire_pending_timer:
  assumes "shape cfg s"
  defines "s' \<equiv> foldl (step cfg) s [Tick (nat (timer_delay (RATE_LIMIT_DELAY cfg))), TimerFired 0]"
  shows "shape cfg s' \<and> settled s' \<and> pending s' = pending s"
proof -
  have sh: "shape cfg s'"
    unfolding s'_def using assms(1) by (rule shape_foldl)
  from assms(1) have "settled s' \<and> pending s' = pending s"
  proof (cases rule: shape_cases)
    case idle
    then show ?thesis by (simp add: s'_def settled_def pending_def in_flight_def)
  next
    case (scraping e)
    then show ?thesis by (simp add: s'_def settled_def pending_def in_flight_def)
  next
    case (delaying d)
    then obtain e q where q: "requestQueue s = e # q" by (cases "requestQueue s") auto
    with delaying show ?thesis
      by (simp add: s'_def settled_def pending_def in_flight_def drop_task_def loop_head_def
          emit_def)
  qed
  with sh show ?thesis by simp
qed

lemma settle_one_step:
  fixes drv :: driver
  assumes "shape cfg s" and "settled s"
  defines "s' \<equiv> foldl (step cfg) s (settle_one cfg drv)"
  shows "shape cfg s' \<and> settled s' \<and> pending s' = pending s - 1"
proof -
  have sh: "shape cfg s'"
    unfolding s'_def using assms(1) by (rule shape_foldl)
  from assms(1) have "settled s' \<and> pending s' = pending s - 1"
  proof (cases rule: shape_cases)
    case idle
    then show ?thesis
      by (simp add: s'_def settle_one_def settled_def pending_def in_flight_def)
  next
    case (scraping e)
    show ?thesis
    proof (cases "requestQueue s")
      case Nil
      with scraping show ?thesis
        by (simp add: s'_def settle_one_def settled_def pending_def in_flight_def
            after_scrape_eq drop_task_def)
    next
      case (Cons e' q)
      with scraping show ?thesis
        by (simp add: s'_def settle_one_def settled_def pending_def in_flight_def
            after_scrape_eq drop_task_def loop_head_def emit_def)
    qed
  next
    case (delaying d)
    with assms(2) show ?thesis by (simp add: settled_def)
  qed
  with sh show ?thesis by simp
qed

lemma settle_all:
  assumes "shape cfg s" and "settled s" and "pending s \<le> length drvs"
  shows "pending (foldl (step cfg) s (concat (map (settle_one cfg) drvs))) = 0
    \<and> shape cfg (foldl (step cfg) s (concat (map (settle_one cfg) drvs)))
    \<and> settled (foldl (step cfg) s (concat (map (settle_one cfg) drvs)))"
  using assms
proof (induction drvs arbitrary: s)
  case Nil
  then show ?case by simp
next
  case (Cons drv drvs)
  define s1 where "s1 = foldl (step cfg) s (settle_one cfg drv)"
  from settle_one_step[OF Cons.prems(1,2), of drv]
  have 1: "shape cfg s1" and 2: "settled s1" and 3: "pending s1 = pending s - 1"
    unfolding s1_def by blast+
  from 3 Cons.prems(3) have 4: "pending s1 \<le> length drvs"
    by simp
  have "foldl (step cfg) s (concat (map (settle_one cfg) (drv # drvs)))
      = foldl (step cfg) s1 (concat (map (settle_one cfg) drvs))"
    unfolding s1_def by (simp only: list.map concat.simps foldl_append)
  with Cons.IH[OF 1 2 4] show ?case by (simp only:)
qed

lemma quiescent:
  assumes "shape cfg s" and "settled s" and "pending s = 0"
  shows "tasks s = [] \<and> requestQueue s = [] \<and> \<not> isProcessing s"
  using assms(1)
  by (cases rule: shape_cases) (use assms(2,3) in \<open>simp_all add: settled_def pending_def in_flight_def\<close>)

text \<open>
  Claim C1. After any sequence of events, the responses the drain loop has answered,
  followed by the one in flight and by those still queued, are exactly the responses of
  the accepted submissions, in the order of submission: no job is answered twice, none
  is skipped, none overtakes another. When the environment lets the loop finish (every
  invocation settles, with success or with failure as the given drivers decide, and
  every timer fires), the loop comes to rest with every one of the accepted jobs
  answered, once, in submission order.
\<close>

theorem every_job_resolved_once_in_order:
  "answered (trace (run cfg evs)) @ awaited (tasks (run cfg evs))
       @ map response (requestQueue (run cfg evs)) = accepted evs
   \<and> (pending (run cfg evs) \<le> length drvs \<longrightarrow>
        answered (trace (run cfg (evs @ settle_events cfg drvs))) = accepted evs
        \<and> tasks (run cfg (evs @ settle_events cfg drvs)) = []
        \<and> requestQueue (run cfg (evs @ settle_events cfg drvs)) = []
        \<and> \<not> isProcessing (run cfg (evs @ settle_events cfg drvs)))"
proof -
  have a: "answered (trace (run cfg evs)) @ awaited (tasks (run cfg evs))
       @ map response (requestQueue (run cfg evs)) = accepted evs"
    using ledger_run[of cfg evs] by (simp add: ledger_def)
  have b: "answered (trace (run cfg (evs @ settle_events cfg drvs))) = accepted evs
        \<and> tasks (run cfg (evs @ settle_events cfg drvs)) = []
        \<and> requestQueue (run cfg (evs @ settle_events cfg drvs)) = []
        \<and> \<not> isProcessing (run cfg (evs @ settle_events cfg drvs))"
    if le: "pending (run cfg evs) \<le> length drvs"
  proof -
    define s1 where "s1 = foldl (step cfg) (run cfg evs) [Tick (nat (timer_delay (RATE_LIMIT_DELAY cfg))), TimerFired 0]"
    define s2 where "s2 = foldl (step cfg) s1 (concat (map (settle_one cfg) drvs))"
    have e: "run cfg (evs @ settle_events cfg drvs) = s2"
      unfolding s2_def s1_def by (simp only: run_append settle_events_def foldl_append)
    from fire_pending_timer[OF shape_run, of cfg evs]
    have 1: "shape cfg s1" and 2: "settled s1" and 3: "pending s1 = pending (run cfg evs)"
      unfolding s1_def by blast+
    from 3 le have 4: "pending s1 \<le> length drvs"
      by (simp only:)
    from settle_all[OF 1 2 4]
    have "pending s2 = 0" and "shape cfg s2" and "settled s2"
      unfolding s2_def by blast+
    then have q: "tasks s2 = [] \<and> requestQueue s2 = [] \<and> \<not> isProcessing s2"
      using quiescent by blast
    have "ledger s2 = accepted (evs @ settle_events cfg drvs)"
      using ledger_run[of cfg "evs @ settle_events cfg drvs"] e by (simp only:)
    then have "answered (trace s2) = accepted evs"
      using q by (simp add: ledger_def accepted_append accepted_settle_events)
    with q e show ?thesis by (simp only:) simp
  qed
  from a b show ?thesis by blast
qed

theorem every_job_resolved_once_in_order_witness:
  "pending (run cfg_default [Submit body_valid 7, Submit body_valid 8])
     \<le> length [drv_nolaunch, drv_ok]
   \<and> answered (trace (run cfg_default
         ([Submit body_valid 7, Submit body_valid 8]
          @ settle_events cfg_default [drv_nolaunch, drv_ok]))) = [7, 8]
   \<and> tasks (run cfg_default
         ([Submit body_valid 7, Submit body_valid 8]
          @ settle_events cfg_default [drv_nolaunch, drv_ok])) = []"
proof -
  have p: "pending (run cfg_default [Submit body_valid 7, Submit body_valid 8])
     \<le> length [drv_nolaunch, drv_ok]"
    by (simp add: run_busy busy_def pending_def in_flight_def)
  have a: "accepted [Submit body_valid 7, Submit body_valid 8] = [7, 8]"
    by (simp add: body_valid_def body_none_def admitted_def)
  from every_job_resolved_once_in_order[of cfg_default "[Submit body_valid 7, Submit body_valid 8]"
      "[drv_nolaunch, drv_ok]"] p a
  show ?thesis by (simp only:)
qed

section \<open>The inter-job delay\<close>

lemma spaced_rejects_early_start:
  "\<not> spaced 3000 [(0, Enqueued 7), (0, Invoked 7), (0, Enqueued 8), (5, Respond 7 200 []),
      (5, Sleep 3000), (3004, Invoked 8)]"
  by (simp add: spaced_def watch_trace_def)

lemma spaced_rejects_missing_timer:
  "\<not> spaced 3000 [(0, Enqueued 7), (0, Invoked 7), (0, Enqueued 8), (5, Respond 7 200 []),
      (3005, Invoked 8)]"
  by (simp add: spaced_def watch_trace_def)

lemma spaced_rejects_unanswered_start:
  "\<not> spaced 3000 [(0, Enqueued 7), (0, Invoked 7), (0, Enqueued 8), (0, Invoked 8)]"
  by (simp add: spaced_def watch_trace_def)

lemma spaced_accepts_timed_start:
  "spaced 3000 [(0, Enqueued 7), (0, Invoked 7), (0, Enqueued 8), (5, Respond 7 200 []),
      (5, Sleep 3000), (3005, Invoked 8)]"
  by (simp add: spaced_def watch_trace_def)








lemma run_two_jobs:
  "trace (run cfg_default [Submit body_valid 7, Submit body_valid 8, Tick 5,
      ScrapeDone 0 drv_nolaunch, Tick 3000, TimerFired 0]) =
   [(0, Enqueued 7), (0, Invoked 7), (0, Enqueued 8),
    (5, Respond 7 500 (failure_payload ''Failed to scrape LinkedIn profile: no chrome'' 5)),
    (5, Sleep 3000), (3005, Invoked 8)]"
proof -
  have "run cfg_default ([Submit body_valid 7, Submit body_valid 8] @ [Tick 5,
      ScrapeDone 0 drv_nolaunch, Tick 3000, TimerFired 0]) =
    foldl (step cfg_default) busy [Tick 5, ScrapeDone 0 drv_nolaunch, Tick 3000, TimerFired 0]"
    by (simp only: run_append run_busy)
  then show ?thesis
    by (simp add: busy_def after_scrape_eq drop_task_def loop_head_def emit_def
        settle_response_def scrapeLinkedInProfile_def launched_def drv_nolaunch_def drv_ok_def
        entry1_def entry2_def req_valid_def the_sections_def RATE_LIMIT_DELAY_def
        cfg_default_def timer_delay_def)
qed






section \<open>The per-job wait\<close>

lemma forget_entry_idem: "forget_entry (forget_entry e) = forget_entry e"
  by (simp add: forget_entry_def)

lemma forget_task_idem: "forget_task (forget_task t) = forget_task t"
  by (cases t) (simp_all add: forget_entry_idem)

lemma forget_wait_idem: "forget_wait (forget_wait s) = forget_wait s"
  by (simp add: forget_wait_def forget_entry_idem forget_task_idem comp_def)

lemma via_proxy_wait: "via_proxy cfg (r\<lparr>wait_time := w\<rparr>) = via_proxy cfg r"
  by (simp add: via_proxy_def the_proxy_def)

lemma with_browser_wait:
  "with_browser cfg drv t (r\<lparr>wait_time := w\<rparr>) sections = with_browser cfg drv t r sections"
  by (simp add: with_browser_def via_proxy_wait
      cong: prod.case_cong option.case_cong sum.case_cong)

lemma launchOptions_wait: "launchOptions cfg (r\<lparr>wait_time := w\<rparr>) = launchOptions cfg r"
  by (simp add: launchOptions_def via_proxy_wait)

lemma launched_wait:
  "launched cfg drv t (r\<lparr>wait_time := w\<rparr>) sections = launched cfg drv t r sections"
  by (simp add: launched_def with_browser_wait launchOptions_wait cong: option.case_cong)

lemma scrape_wait:
  "scrapeLinkedInProfile cfg drv t (r\<lparr>wait_time := w\<rparr>) = scrapeLinkedInProfile cfg drv t r"
  by (simp add: scrapeLinkedInProfile_def launched_wait the_sections_def
      cong: option.case_cong bool.case_cong jsval.case_cong)

lemma response_forget_entry: "response (forget_entry e) = response e"
  by (simp add: forget_entry_def)

lemma settle_response_forget:
  "settle_response cfg drv (forget_entry e) t = settle_response cfg drv e t"
proof -
  have "request (forget_entry e) = (request e)\<lparr>wait_time := JUndefined\<rparr>"
    by (simp add: forget_entry_def)
  then show ?thesis
    by (simp add: settle_response_def scrape_wait response_forget_entry
        cong: sum.case_cong error.case_cong)
qed

lemma forget_emit: "forget_wait (emit a s) = emit a (forget_wait s)"
  by (simp add: forget_wait_def emit_def)

lemma forget_loop_head: "forget_wait (loop_head s) = loop_head (forget_wait s)"
  by (cases "requestQueue s") (simp_all add: forget_wait_def loop_head_def emit_def forget_entry_def)

lemma forget_processQueue: "forget_wait (processQueue s) = processQueue (forget_wait s)"
proof -
  have "forget_wait (s\<lparr>isProcessing := True\<rparr>) = (forget_wait s)\<lparr>isProcessing := True\<rparr>"
    by (simp add: forget_wait_def)
  then show ?thesis
    by (simp add: processQueue_def forget_loop_head) (simp add: forget_wait_def)
qed

lemma forget_after_scrape:
  "forget_wait (after_scrape cfg drv e s) = after_scrape cfg drv (forget_entry e) (forget_wait s)"
  by (simp add: after_scrape_eq settle_response_forget) (simp add: forget_wait_def)

lemma forget_drop_task: "forget_wait (drop_task i s) = drop_task i (forget_wait s)"
  by (simp add: forget_wait_def drop_task_def take_map drop_map)

lemma forget_queue_entry:
  "forget_entry (queue_entry cfg (b\<lparr>body_wait_time := JUndefined\<rparr>) res)
     = forget_entry (queue_entry cfg b res)"
  by (simp add: queue_entry_def forget_entry_def)

lemma forget_post_scrape:
  "forget_wait (post_scrape cfg b res s) =
     forget_wait (post_scrape cfg (b\<lparr>body_wait_time := JUndefined\<rparr>) res (forget_wait s))"
proof -
  have q: "forget_wait (s\<lparr>requestQueue := requestQueue s @ [e]\<rparr>) =
      (forget_wait s)\<lparr>requestQueue := requestQueue (forget_wait s) @ [forget_entry e]\<rparr>" for e s
    by (simp add: forget_wait_def)
  have n: "now (forget_wait s) = now s" by (simp add: forget_wait_def)
  show ?thesis
    by (simp add: post_scrape_def forget_emit forget_processQueue q n forget_wait_idem
        forget_queue_entry forget_entry_idem split: option.splits bool.splits)
qed

lemma forget_step:
  "forget_wait (step cfg s ev) = forget_wait (step cfg (forget_wait s) (forget_input ev))"
proof (cases ev)
  case (Submit b res)
  then show ?thesis using forget_post_scrape[of cfg b res s] by simp
next
  case (ScrapeDone i drv)
  have l: "length (tasks (forget_wait s)) = length (tasks s)" by (simp add: forget_wait_def)
  have t: "i < length (tasks s) \<Longrightarrow> tasks (forget_wait s) ! i = forget_task (tasks s ! i)"
    by (simp add: forget_wait_def)
  show ?thesis
  proof (cases "i < length (tasks s)")
    case False
    with ScrapeDone l show ?thesis by (simp add: forget_wait_idem)
  next
    case True
    then show ?thesis using ScrapeDone l t
      by (cases "tasks s ! i")
        (simp_all add: forget_after_scrape forget_drop_task forget_wait_idem forget_entry_idem)
  qed
next
  case (TimerFired i)
  have l: "length (tasks (forget_wait s)) = length (tasks s)" by (simp add: forget_wait_def)
  have t: "i < length (tasks s) \<Longrightarrow> tasks (forget_wait s) ! i = forget_task (tasks s ! i)"
    by (simp add: forget_wait_def)
  have n: "now (forget_wait s) = now s" by (simp add: forget_wait_def)
  show ?thesis
  proof (cases "i < length (tasks s)")
    case False
    with TimerFired l show ?thesis by (simp add: forget_wait_idem)
  next
    case True
    then show ?thesis using TimerFired l t n
      by (cases "tasks s ! i")
        (simp_all add: forget_loop_head forget_drop_task forget_wait_idem)
  qed
next
  case (Tick n)
  then show ?thesis
    by (simp add: forget_wait_def forget_entry_idem forget_task_idem comp_def)
qed

lemma forget_run:
  "map forget_input evs = map forget_input evs' \<Longrightarrow>
     forget_wait (run cfg evs) = forget_wait (run cfg evs')"
proof (induction evs arbitrary: evs' rule: rev_induct)
  case Nil
  then show ?case by simp
next
  case (snoc ev evs)
  from snoc.prems obtain ev' evs0 where e: "evs' = evs0 @ [ev']"
    by (cases evs' rule: rev_cases) auto
  with snoc.prems have m: "map forget_input evs = map forget_input evs0"
    and f: "forget_input ev = forget_input ev'"
    by simp_all
  from snoc.IH[OF m] have ih: "forget_wait (run cfg evs) = forget_wait (run cfg evs0)" .
  have "forget_wait (run cfg (evs @ [ev])) =
      forget_wait (step cfg (forget_wait (run cfg evs)) (forget_input ev))"
    by (simp only: run_snoc forget_step[of cfg "run cfg evs" ev])
  also have "\<dots> = forget_wait (step cfg (forget_wait (run cfg evs0)) (forget_input ev'))"
    by (simp only: ih f)
  also have "\<dots> = forget_wait (run cfg (evs0 @ [ev']))"
    by (simp only: run_snoc forget_step[of cfg "run cfg evs0" ev'])
  finally show ?case by (simp only: e)
qed

lemma sleeps_append: "sleeps (xs @ ys) = sleeps xs @ sleeps ys"
  by (induction xs rule: sleeps.induct) simp_all

lemma sleeps_settle_response: "sleeps ((t, settle_response cfg drv e t') # tr) = sleeps tr"
  by (simp add: settle_response_def split: sum.splits error.splits)

lemma sleeps_post_scrape: "sleeps (trace (post_scrape cfg b res s)) = sleeps (trace s)"
proof (cases "admitted (body_url b)")
  case True
  then show ?thesis
    by (auto simp: post_scrape_admitted processQueue_def loop_head_def emit_def sleeps_append
        split: list.splits)
next
  case False
  then obtain st p where "post_scrape cfg b res s = emit (Refused res st p) s"
    using post_scrape_refused by blast
  then show ?thesis by (simp add: emit_def sleeps_append)
qed

lemma sleeps_step:
  "set (sleeps (trace s)) \<subseteq> {RATE_LIMIT_DELAY cfg} \<Longrightarrow>
     set (sleeps (trace (step cfg s ev))) \<subseteq> {RATE_LIMIT_DELAY cfg}"
  by (cases ev)
    (auto simp: sleeps_post_scrape after_scrape_eq drop_task_def
      loop_head_def emit_def sleeps_append sleeps_settle_response
      split: if_splits task.splits list.splits)

lemma sleeps_run: "set (sleeps (trace (run cfg evs))) \<subseteq> {RATE_LIMIT_DELAY cfg}"
proof (induction evs rule: rev_induct)
  case Nil
  show ?case by (simp add: run_def init_def)
next
  case (snoc ev evs)
  then show ?case by (simp only: run_snoc sleeps_step)
qed

text \<open>
  Claim C9. The handler accepts \<^verbatim>\<open>wait_time\<close> and stores it in the entry it pushes
  (\<^verbatim>\<open>wait_time || RATE_LIMIT_DELAY\<close>), and nothing reads it. Every timer the drain loop
  sets is set for the process-wide \<^verbatim>\<open>RATE_LIMIT_DELAY\<close>. Two sequences of events that
  differ only in the \<^verbatim>\<open>wait_time\<close> of the submissions lead to states that differ only
  in the \<^verbatim>\<open>wait_time\<close> stored: the same trace (answers, invocations, timers, with their
  times), the same flag, the same clock, the same responses queued.
\<close>

theorem wait_time_is_ignored:
  "(admitted (body_url b) \<and> isProcessing s \<longrightarrow>
      requestQueue (post_scrape cfg b res s) = requestQueue s @ [queue_entry cfg b res]
      \<and> wait_time (request (queue_entry cfg b res)) =
          (if truthy (body_wait_time b) then body_wait_time b
           else JNum (RATE_LIMIT_DELAY cfg)))
   \<and> set (sleeps (trace (run cfg evs))) \<subseteq> {RATE_LIMIT_DELAY cfg}
   \<and> (map forget_input evs = map forget_input evs' \<longrightarrow>
        forget_wait (run cfg evs) = forget_wait (run cfg evs')
        \<and> trace (run cfg evs) = trace (run cfg evs')
        \<and> isProcessing (run cfg evs) = isProcessing (run cfg evs')
        \<and> now (run cfg evs) = now (run cfg evs')
        \<and> map response (requestQueue (run cfg evs)) = map response (requestQueue (run cfg evs')))"
proof -
  have a: "admitted (body_url b) \<and> isProcessing s \<longrightarrow>
      requestQueue (post_scrape cfg b res s) = requestQueue s @ [queue_entry cfg b res]
      \<and> wait_time (request (queue_entry cfg b res)) =
          (if truthy (body_wait_time b) then body_wait_time b
           else JNum (RATE_LIMIT_DELAY cfg))"
    by (simp add: post_scrape_admitted processQueue_def emit_def queue_entry_def js_or_def)
  have c: "forget_wait (run cfg evs) = forget_wait (run cfg evs')
        \<and> trace (run cfg evs) = trace (run cfg evs')
        \<and> isProcessing (run cfg evs) = isProcessing (run cfg evs')
        \<and> now (run cfg evs) = now (run cfg evs')
        \<and> map response (requestQueue (run cfg evs)) = map response (requestQueue (run cfg evs'))"
    if m: "map forget_input evs = map forget_input evs'"
  proof -
    from forget_run[OF m] have f: "forget_wait (run cfg evs) = forget_wait (run cfg evs')" .
    have p: "trace (forget_wait x) = trace x" "isProcessing (forget_wait x) = isProcessing x"
      "now (forget_wait x) = now x"
      "map response (requestQueue (forget_wait x)) = map response (requestQueue x)" for x
      by (simp_all add: forget_wait_def forget_entry_def comp_def)
    from f p[of "run cfg evs"] p[of "run cfg evs'"] show ?thesis by simp
  qed
  from a sleeps_run[of cfg evs] c show ?thesis by blast
qed

theorem wait_time_is_ignored_witness:
  "wait_time (request (queue_entry cfg_default body_slow 9)) = JNum 60000
   \<and> requestQueue (post_scrape cfg_default body_slow 9 busy)
       = requestQueue busy @ [queue_entry cfg_default body_slow 9]
   \<and> trace (run cfg_default [Submit body_slow 7, Submit body_valid 8, Tick 5,
        ScrapeDone 0 drv_nolaunch, Tick 3000, TimerFired 0]) =
      [(0, Enqueued 7), (0, Invoked 7), (0, Enqueued 8),
       (5, Respond 7 500 (failure_payload ''Failed to scrape LinkedIn profile: no chrome'' 5)),
       (5, Sleep 3000), (3005, Invoked 8)]"
proof -
  have v: "admitted (body_url body_slow) \<and> isProcessing busy"
    by (simp add: body_slow_def body_valid_def body_none_def busy_def admitted_def)
  have m: "map forget_input [Submit body_valid 7, Submit body_valid 8, Tick 5,
        ScrapeDone 0 drv_nolaunch, Tick 3000, TimerFired 0] =
      map forget_input [Submit body_slow 7, Submit body_valid 8, Tick 5,
        ScrapeDone 0 drv_nolaunch, Tick 3000, TimerFired 0]"
    by (simp add: body_slow_def)
  have o: "(if truthy (body_wait_time body_slow) then body_wait_time body_slow
           else JNum (RATE_LIMIT_DELAY cfg_default)) = JNum 60000"
    by (simp add: body_slow_def)
  note T = wait_time_is_ignored[of body_slow busy cfg_default 9
      "[Submit body_valid 7, Submit body_valid 8, Tick 5,
        ScrapeDone 0 drv_nolaunch, Tick 3000, TimerFired 0]"
      "[Submit body_slow 7, Submit body_valid 8, Tick 5,
        ScrapeDone 0 drv_nolaunch, Tick 3000, TimerFired 0]"]
  from T v o have 1: "wait_time (request (queue_entry cfg_default body_slow 9)) = JNum 60000"
    by (simp only:)
  from T v have 2: "requestQueue (post_scrape cfg_default body_slow 9 busy)
       = requestQueue busy @ [queue_entry cfg_default body_slow 9]"
    by (simp only:)
  from T m have "trace (run cfg_default [Submit body_valid 7, Submit body_valid 8, Tick 5,
        ScrapeDone 0 drv_nolaunch, Tick 3000, TimerFired 0]) =
      trace (run cfg_default [Submit body_slow 7, Submit body_valid 8, Tick 5,
        ScrapeDone 0 drv_nolaunch, Tick 3000, TimerFired 0])"
    by (simp only:)
  then have 3: "trace (run cfg_default [Submit body_slow 7, Submit body_valid 8, Tick 5,
        ScrapeDone 0 drv_nolaunch, Tick 3000, TimerFired 0]) =
      [(0, Enqueued 7), (0, Invoked 7), (0, Enqueued 8),
       (5, Respond 7 500 (failure_payload ''Failed to scrape LinkedIn profile: no chrome'' 5)),
       (5, Sleep 3000), (3005, Invoked 8)]"
    by (simp only: run_two_jobs)
  from 1 2 3 show ?thesis by (simp only:)
qed

end
